theory Spec2Isabelle
  imports Complex_Main "HOL-Library.Log_Nat" "HOL-Library.Char_ord" "HOL-Library.List_Lexorder"
begin

section \<open>Python arithmetic used by the two scripts\<close>

text \<open>
  Both scripts compute image geometry with Python's true division \<^verbatim>\<open>/\<close> (always a
  binary64 float), the product and quotient of an int and a float, \<^verbatim>\<open>int()\<close>
  (truncation) and \<^verbatim>\<open>//\<close> (floor division, HOL's \<open>div\<close> on \<open>int\<close>).
  A float is modelled by the rational number it denotes. Every float operation is the
  exact operation followed by \<open>fl\<close>, rounding to the nearest number with a 53-bit
  significand, ties to even, as IEEE 754 prescribes. The exponent is unbounded: the
  model is binary64 wherever no overflow or underflow happens, which covers all
  quotients and products of integers below \<open>2 ^ 53\<close> in absolute value.
\<close>

datatype error =
  ZeroDivisionError | KeyError | ValueError | OSError | APIError | UnicodeEncodeError

text \<open>Rounding a rational to the nearest integer, ties to the even one.\<close>

definition rne :: "rat \<Rightarrow> int" where
  "rne x = (let f = \<lfloor>x\<rfloor>; d = x - of_int f
            in if d < 1 / 2 then f
               else if 1 / 2 < d then f + 1
               else if even f then f else f + 1)"

text \<open>The binary exponent of a positive rational: \<open>2 powi flog2 q \<le> q < 2 powi (flog2 q + 1)\<close>.\<close>

definition flog2 :: "rat \<Rightarrow> int" where
  "flog2 q = (if 1 \<le> q then bitlen \<lfloor>q\<rfloor> - 1 else - bitlen (\<lceil>1 / q\<rceil> - 1))"

definition fl :: "rat \<Rightarrow> rat" where
  "fl q = (if q = 0 then 0
           else let e = flog2 \<bar>q\<bar> - 52;
                    m = rne (\<bar>q\<bar> / 2 powi e)
                in sgn q * of_int m * 2 powi e)"

text \<open>The implicit conversion of an int operand to float.\<close>

definition float_of_int :: "int \<Rightarrow> rat" where
  "float_of_int n = fl (of_int n)"

text \<open>\<^verbatim>\<open>a / b\<close> on two ints: the correctly rounded quotient, or ZeroDivisionError.\<close>

definition int_truediv :: "int \<Rightarrow> int \<Rightarrow> error + rat" where
  "int_truediv a b = (if b = 0 then Inl ZeroDivisionError else Inr (fl (of_int a / of_int b)))"

text \<open>\<^verbatim>\<open>n * x\<close> and \<^verbatim>\<open>n / x\<close> for an int \<open>n\<close> and a float \<open>x\<close>.\<close>

definition int_mul_float :: "int \<Rightarrow> rat \<Rightarrow> rat" where
  "int_mul_float n x = fl (float_of_int n * x)"

definition int_div_float :: "int \<Rightarrow> rat \<Rightarrow> error + rat" where
  "int_div_float n x = (if x = 0 then Inl ZeroDivisionError else Inr (fl (float_of_int n / x)))"

text \<open>\<^verbatim>\<open>int(x)\<close> truncates towards zero.\<close>

definition py_int :: "rat \<Rightarrow> int" where
  "py_int x = (if 0 \<le> x then \<lfloor>x\<rfloor> else \<lceil>x\<rceil>)"

section \<open>Images and the Pillow operations the scripts call\<close>

text \<open>
  An image has a size, a mode and its pixels, row by row. Pillow is an external library;
  its two operations on pixels used here are modelled as documented:
  \<^item> \<^verbatim>\<open>image.crop((left, upper, right, lower))\<close> returns an image of size
    \<open>(right - left, lower - upper)\<close>; pixels of the box outside the source read as
    0; it raises ValueError when \<open>right < left\<close> or \<open>lower < upper\<close>;
  \<^item> \<^verbatim>\<open>image.resize(size, LANCZOS)\<close> returns a copy when the size is unchanged, raises
    ValueError when a requested side is below 1, and otherwise returns an image of the
    requested size whose pixels come from the resampling filter. The filter is a
    parameter \<open>filt\<close> of the model: \<open>filt img (w, h) x y\<close> is the resampled pixel
    at \<open>(x, y)\<close>.
\<close>

type_synonym pixel = nat

record image =
  width :: int
  height :: int
  mode :: string
  rows :: "pixel list list"

type_synonym box = "int \<times> int \<times> int \<times> int"

type_synonym resampler = "image \<Rightarrow> int \<times> int \<Rightarrow> int \<Rightarrow> int \<Rightarrow> pixel"

definition raster :: "int \<Rightarrow> int \<Rightarrow> (int \<Rightarrow> int \<Rightarrow> pixel) \<Rightarrow> pixel list list" where
  "raster w h f = map (\<lambda>y. map (\<lambda>x. f (int x) (int y)) [0..<nat w]) [0..<nat h]"

definition getpixel :: "image \<Rightarrow> int \<Rightarrow> int \<Rightarrow> pixel" where
  "getpixel img x y =
     (if 0 \<le> x \<and> x < width img \<and> 0 \<le> y \<and> y < height img
      then rows img ! nat y ! nat x else 0)"

fun crop :: "image \<Rightarrow> box \<Rightarrow> error + image" where
  "crop img (left, upper, right, lower) =
     (if right < left then Inl ValueError
      else if lower < upper then Inl ValueError
      else Inr \<lparr>width = right - left, height = lower - upper, mode = mode img,
                rows = raster (right - left) (lower - upper)
                         (\<lambda>x y. getpixel img (left + x) (upper + y))\<rparr>)"

fun resize :: "resampler \<Rightarrow> image \<Rightarrow> int \<times> int \<Rightarrow> error + image" where
  "resize filt img (w, h) =
     (if (width img, height img) = (w, h) then Inr img
      else if w < 1 \<or> h < 1 then Inl ValueError
      else Inr \<lparr>width = w, height = h, mode = mode img,
                rows = raster w h (filt img (w, h))\<rparr>)"

section \<open>tools/crop-for-apple.py\<close>

definition APPLE_DIMENSIONS :: "(string \<times> int \<times> int) list" where
  "APPLE_DIMENSIONS = [(''6.7'', (1284, 2778)), (''6.5'', (1242, 2688))]"

definition DEFAULT_SIZE :: string where
  "DEFAULT_SIZE = ''6.7''"

subsection \<open>crop_center\<close>

text \<open>The test of line 49.\<close>

fun needs_upscale :: "int \<times> int \<Rightarrow> int \<Rightarrow> int \<Rightarrow> bool" where
  "needs_upscale (img_width, img_height) target_width target_height \<longleftrightarrow>
     img_width < target_width \<or> img_height < target_height"

text \<open>Lines 50 to 52: the scale and the size handed to \<^verbatim>\<open>resize\<close>.\<close>

fun upscale_factor :: "int \<times> int \<Rightarrow> int \<Rightarrow> int \<Rightarrow> error + rat" where
  "upscale_factor (img_width, img_height) target_width target_height =
     (case int_truediv target_width img_width of
        Inl e \<Rightarrow> Inl e
      | Inr a \<Rightarrow>
          (case int_truediv target_height img_height of
             Inl e \<Rightarrow> Inl e
           | Inr b \<Rightarrow> Inr (max a b)))"

fun upscale_size :: "int \<times> int \<Rightarrow> int \<Rightarrow> int \<Rightarrow> error + int \<times> int" where
  "upscale_size (img_width, img_height) target_width target_height =
     (case upscale_factor (img_width, img_height) target_width target_height of
        Inl e \<Rightarrow> Inl e
      | Inr scale \<Rightarrow>
          Inr (py_int (int_mul_float img_width scale), py_int (int_mul_float img_height scale)))"

text \<open>Lines 57 to 60: the crop box for an image of the given size.\<close>

fun crop_box :: "int \<times> int \<Rightarrow> int \<Rightarrow> int \<Rightarrow> box" where
  "crop_box (img_width, img_height) target_width target_height =
     (let left = (img_width - target_width) div 2;
          top = (img_height - target_height) div 2
      in (left, top, left + target_width, top + target_height))"

definition crop_center :: "resampler \<Rightarrow> image \<Rightarrow> int \<Rightarrow> int \<Rightarrow> error + image" where
  "crop_center filt image0 target_width target_height =
     (case (if needs_upscale (width image0, height image0) target_width target_height
            then (case upscale_size (width image0, height image0) target_width target_height of
                    Inl e \<Rightarrow> Inl e
                  | Inr new_size \<Rightarrow> resize filt image0 new_size)
            else Inr image0) of
        Inl e \<Rightarrow> Inl e
      | Inr image1 \<Rightarrow>
          crop image1 (crop_box (width image1, height image1) target_width target_height))"

text \<open>
  The geometry alone: the size of the image that is cropped (after the conditional
  upscale) and the crop box computed for it, from the size of the source.
\<close>

definition crop_center_geometry :: "int \<times> int \<Rightarrow> int \<Rightarrow> int \<Rightarrow> error + (int \<times> int) \<times> box" where
  "crop_center_geometry size0 target_width target_height =
     (case (if needs_upscale size0 target_width target_height
            then upscale_size size0 target_width target_height
            else Inr size0) of
        Inl e \<Rightarrow> Inl e
      | Inr size1 \<Rightarrow> Inr (size1, crop_box size1 target_width target_height))"

subsection \<open>main\<close>

text \<open>
  What a run of the cropper reads from its surroundings: the command line, whether the
  input directory exists, the files matched by \<^verbatim>\<open>INPUT_DIR.glob("*.png")\<close> and, for
  each, what \<^verbatim>\<open>Image.open\<close> returns (\<open>None\<close> when it raises) and whether saving the
  result raises; whether creating the output directory raises; and whether the standard
  output can encode the marks U+2713 and U+2717, one of which line 120 prints after the
  loop, outside every \<^verbatim>\<open>try\<close> (when it cannot, that \<^verbatim>\<open>print\<close> raises UnicodeEncodeError).
  The other messages that \<^verbatim>\<open>main\<close> prints outside the \<^verbatim>\<open>try\<close> are ASCII text and the two
  directory paths.
\<close>

record png_file =
  file_name :: string
  opened :: "image option"
  save_fails :: bool

record cropper_env =
  argv :: "string list"
  input_dir_exists :: bool
  png_files :: "png_file list"
  mkdir_fails :: bool
  stdout_encodes_marks :: bool

text \<open>
  How a script ends: \<^verbatim>\<open>sys.exit(n)\<close>, the end of \<^verbatim>\<open>main\<close>, or an exception that nothing
  catches. The interpreter turns these into the exit status of the process.
\<close>

datatype outcome = SysExit nat | Returned | Uncaught error

fun exit_status :: "outcome \<Rightarrow> nat" where
  "exit_status (SysExit n) = n"
| "exit_status Returned = 0"
| "exit_status (Uncaught e) = 1"

record cropper_run =
  outcome :: outcome
  success :: nat
  saved :: "(string \<times> image) list"

text \<open>Lines 69 to 73.\<close>

definition size_key :: "string list \<Rightarrow> string" where
  "size_key av =
     (if 1 < length av \<and> av ! 1 \<in> set (map fst APPLE_DIMENSIONS) then av ! 1
      else DEFAULT_SIZE)"

definition target_dimensions :: "string list \<Rightarrow> error + int \<times> int" where
  "target_dimensions av =
     (case map_of APPLE_DIMENSIONS (size_key av) of
        None \<Rightarrow> Inl KeyError
      | Some d \<Rightarrow> Inr d)"

text \<open>The body of the \<^verbatim>\<open>try\<close> of lines 97 to 115, for one file.\<close>

fun process_image :: "resampler \<Rightarrow> int \<times> int \<Rightarrow> png_file \<Rightarrow> error + image" where
  "process_image filt (target_width, target_height) f =
     (case opened f of
        None \<Rightarrow> Inl OSError
      | Some image0 \<Rightarrow>
          (case crop_center filt image0 target_width target_height of
             Inl e \<Rightarrow> Inl e
           | Inr cropped \<Rightarrow> if save_fails f then Inl OSError else Inr cropped))"

text \<open>The loop of lines 95 to 118: an exception is caught and the loop goes on.\<close>

fun process_all ::
  "resampler \<Rightarrow> int \<times> int \<Rightarrow> png_file list \<Rightarrow> nat \<times> (string \<times> image) list
     \<Rightarrow> nat \<times> (string \<times> image) list" where
  "process_all filt target [] acc = acc"
| "process_all filt target (f # fs) (n, out) =
     (case process_image filt target f of
        Inl e \<Rightarrow> process_all filt target fs (n, out)
      | Inr cropped \<Rightarrow> process_all filt target fs (n + 1, out @ [(file_name f, cropped)]))"

definition main_crop_for_apple :: "resampler \<Rightarrow> cropper_env \<Rightarrow> cropper_run" where
  "main_crop_for_apple filt env =
     (case target_dimensions (argv env) of
        Inl e \<Rightarrow> \<lparr>outcome = Uncaught e, success = 0, saved = []\<rparr>
      | Inr target \<Rightarrow>
          if \<not> input_dir_exists env then \<lparr>outcome = SysExit 1, success = 0, saved = []\<rparr>
          else if png_files env = [] then \<lparr>outcome = SysExit 1, success = 0, saved = []\<rparr>
          else if mkdir_fails env then \<lparr>outcome = Uncaught OSError, success = 0, saved = []\<rparr>
          else (case process_all filt target (sort_key file_name (png_files env)) (0, []) of
                  (n, out) \<Rightarrow>
                    if \<not> stdout_encodes_marks env
                    then \<lparr>outcome = Uncaught UnicodeEncodeError, success = n, saved = out\<rparr>
                    else \<lparr>outcome = Returned, success = n, saved = out\<rparr>))"

section \<open>tools/generate-feature-graphic.py\<close>

definition OUTPUT_WIDTH :: int where
  "OUTPUT_WIDTH = 1024"

definition OUTPUT_HEIGHT :: int where
  "OUTPUT_HEIGHT = 500"

definition ICON_PATHS :: "string list" where
  "ICON_PATHS = [''assets/icon.png'', ''assets/adaptive-icon.png'']"

subsection \<open>ensure_exact_size\<close>

text \<open>
  Lines 77 to 90: the crop box, if a crop is made. \<open>Inr None\<close> is the case of equal
  ratios, where the image goes to \<^verbatim>\<open>resize\<close> as it is.
\<close>

fun ensure_crop_box :: "int \<times> int \<Rightarrow> int \<Rightarrow> int \<Rightarrow> error + box option" where
  "ensure_crop_box (current_width, current_height) target_width target_height =
     (case int_truediv target_width target_height of
        Inl e \<Rightarrow> Inl e
      | Inr target_ratio \<Rightarrow>
          (case int_truediv current_width current_height of
             Inl e \<Rightarrow> Inl e
           | Inr current_ratio \<Rightarrow>
               if current_ratio > target_ratio then
                 (let new_width = py_int (int_mul_float current_height target_ratio);
                      left = (current_width - new_width) div 2
                  in Inr (Some (left, 0, left + new_width, current_height)))
               else if current_ratio < target_ratio then
                 (case int_div_float current_width target_ratio of
                    Inl e \<Rightarrow> Inl e
                  | Inr q \<Rightarrow>
                      (let new_height = py_int q;
                           top = (current_height - new_height) div 2
                       in Inr (Some (0, top, current_width, top + new_height))))
               else Inr None))"

definition ensure_exact_size :: "resampler \<Rightarrow> image \<Rightarrow> int \<Rightarrow> int \<Rightarrow> error + image" where
  "ensure_exact_size filt image0 target_width target_height =
     (case ensure_crop_box (width image0, height image0) target_width target_height of
        Inl e \<Rightarrow> Inl e
      | Inr b \<Rightarrow>
          (case (case b of None \<Rightarrow> Inr image0 | Some bx \<Rightarrow> crop image0 bx) of
             Inl e \<Rightarrow> Inl e
           | Inr image1 \<Rightarrow> resize filt image1 (target_width, target_height)))"

subsection \<open>The response of the generative model, and what a run reads\<close>

text \<open>
  A part of the response, as far as the script looks at it: the name of its class, its
  \<^verbatim>\<open>inline_data\<close> (\<open>None\<close> when the attribute is missing or is \<^verbatim>\<open>None\<close>) and its \<^verbatim>\<open>text\<close>
  (\<open>None\<close> when the attribute is missing or is \<^verbatim>\<open>None\<close>). The payload of an inline
  image is a \<^verbatim>\<open>str\<close> (base64) or \<^verbatim>\<open>bytes\<close>; its \<open>mime_type\<close> is \<open>None\<close> when
  the attribute is missing, which prints as "unknown".
\<close>

datatype blob = Str string | Bytes string

record inline =
  mime_type :: "string option"
  payload :: blob

record part =
  part_type :: string
  inline_data :: "inline option"
  part_text :: "string option"

record response =
  parts :: "part list option"

text \<open>
  The surroundings of a run of the feature-graphic script: the environment variable,
  the file system, the model service (\<open>probe m\<close>: the trial request to model \<open>m\<close>
  returns; \<open>generate_content m\<close>: the answer to the generation request, or the exception
  it raises) and the library calls whose results the script only passes on: decoding the
  payload (\<open>None\<close> when base64 decoding or \<^verbatim>\<open>Image.open\<close> raises), the resampling filter,
  flattening onto white, conversion to RGB, saving, the size of the saved file and the
  text of an exception.
\<close>

record feature_env =
  api_key :: "string option"
  path_exists :: "string \<Rightarrow> bool"
  output_dir_fails :: bool
  probe :: "string \<Rightarrow> bool"
  open_icon :: "string \<Rightarrow> image option"
  generate_content :: "string \<Rightarrow> error + response"
  decode_image :: "blob \<Rightarrow> image option"
  lanczos :: resampler
  flatten_rgba :: "image \<Rightarrow> image"
  convert_rgb :: "image \<Rightarrow> image"
  png_save_fails :: bool
  size_kb :: nat
  error_text :: "error \<Rightarrow> string"

text \<open>
  What a run does to the outside, in order: lines printed by \<^verbatim>\<open>generate_feature_graphic\<close>
  (the messages of \<^verbatim>\<open>main\<close> itself are left out of the model), the construction of the
  client, the requests sent to the service, and the file written.
\<close>

datatype event =
    Stdout string
  | Client_created string
  | Probe_request string
  | Generation_request string
  | File_saved string image

fun show_nat :: "nat \<Rightarrow> string" where
  "show_nat n =
     (if n < 10 then [char_of (48 + n)]
      else show_nat (n div 10) @ [char_of (48 + n mod 10)])"

declare show_nat.simps [simp del]

definition show_int :: "int \<Rightarrow> string" where
  "show_int i = (if i < 0 then CHR ''-'' # show_nat (nat (- i)) else show_nat (nat i))"

subsection \<open>generate_feature_graphic\<close>

definition error_line :: "feature_env \<Rightarrow> error \<Rightarrow> event" where
  "error_line env e = Stdout (''  Error: '' @ error_text env e)"

text \<open>The loop of lines 143 and 144 stops at the first part that carries inline data.\<close>

fun first_inline :: "part list \<Rightarrow> inline option" where
  "first_inline [] = None"
| "first_inline (p # ps) =
     (case inline_data p of
        Some d \<Rightarrow> Some d
      | None \<Rightarrow> first_inline ps)"

text \<open>Lines 145 to 170, for that part: \<open>True\<close> once the file is saved.\<close>

definition save_image :: "feature_env \<Rightarrow> inline \<Rightarrow> bool \<times> event list" where
  "save_image env d =
     (let evs1 = [Stdout (''  Found image data (mime: ''
                    @ (case mime_type d of None \<Rightarrow> ''unknown'' | Some m \<Rightarrow> m) @ '')'')]
      in case decode_image env (payload d) of
           None \<Rightarrow> (False, evs1 @ [error_line env OSError])
         | Some image0 \<Rightarrow>
             (case ensure_exact_size (lanczos env) image0 OUTPUT_WIDTH OUTPUT_HEIGHT of
                Inl e \<Rightarrow> (False, evs1 @ [error_line env e])
              | Inr image1 \<Rightarrow>
                  (let evs2 = evs1 @ [Stdout (''  Final size: '' @ show_int (width image1)
                                        @ ''x'' @ show_int (height image1))];
                       image2 = (if mode image1 = ''RGBA'' then flatten_rgba env image1
                                 else if mode image1 \<noteq> ''RGB'' then convert_rgb env image1
                                 else image1)
                   in if png_save_fails env then (False, evs2 @ [error_line env OSError])
                      else (True, evs2 @
                              [File_saved ''feature-graphic/feature-graphic.png'' image2,
                               Stdout (''  Saved: feature-graphic.png (''
                                 @ show_nat (size_kb env) @ '' KB)'')]))))"

text \<open>Lines 173 to 180: the report of the parts when no image was found.\<close>

definition preview :: "string \<Rightarrow> string" where
  "preview t = map (\<lambda>c. if c = CHR 0x0A then CHR '' '' else c) (take 80 t)"

fun part_line :: "nat \<Rightarrow> part \<Rightarrow> string" where
  "part_line i p =
     (case part_text p of
        None \<Rightarrow> ''    Part '' @ show_nat i @ '': '' @ part_type p
      | Some t \<Rightarrow>
          if t \<noteq> [] then
            ''    Part '' @ show_nat i @ '': '' @ part_type p @ '' - text: '' @ [CHR 0x22]
              @ preview t @ ''...'' @ [CHR 0x22]
          else ''    Part '' @ show_nat i @ '': '' @ part_type p)"

fun part_lines :: "nat \<Rightarrow> part list \<Rightarrow> string list" where
  "part_lines i [] = []"
| "part_lines i (p # ps) = part_line i p # part_lines (Suc i) ps"

definition report_parts :: "part list \<Rightarrow> event list" where
  "report_parts ps =
     Stdout ''  No image in response. Parts received:'' # map Stdout (part_lines 0 ps)"

definition generate_feature_graphic ::
  "feature_env \<Rightarrow> string \<Rightarrow> string \<Rightarrow> bool \<times> event list" where
  "generate_feature_graphic env model_name icon_path =
     (case open_icon env icon_path of
        None \<Rightarrow> (False, [error_line env OSError])
      | Some icon \<Rightarrow>
          (let evs1 = [Stdout (''  Icon loaded: '' @ show_int (width icon) @ ''x''
                         @ show_int (height icon)),
                       Stdout ''  Generating with AI...'',
                       Generation_request model_name]
           in case generate_content env model_name of
                Inl e \<Rightarrow> (False, evs1 @ [error_line env e])
              | Inr resp \<Rightarrow>
                  (let ps = (case parts resp of None \<Rightarrow> [] | Some l \<Rightarrow> l)
                   in case first_inline ps of
                        Some d \<Rightarrow> (case save_image env d of (ok, evs2) \<Rightarrow> (ok, evs1 @ evs2))
                      | None \<Rightarrow> (False, evs1 @ report_parts ps))))"

subsection \<open>main\<close>

definition models_to_try :: "string list" where
  "models_to_try = [''gemini-3-pro-image-preview'', ''gemini-2.5-flash-image'']"

text \<open>The loop of lines 226 to 243: the first model whose trial request returns.\<close>

fun select_model :: "feature_env \<Rightarrow> string list \<Rightarrow> string option \<times> event list" where
  "select_model env [] = (None, [])"
| "select_model env (m # ms) =
     (if probe env m then (Some m, [Probe_request m])
      else (case select_model env ms of (r, evs) \<Rightarrow> (r, Probe_request m # evs)))"

definition main_generate_feature_graphic :: "feature_env \<Rightarrow> outcome \<times> event list" where
  "main_generate_feature_graphic env =
     (case api_key env of
        None \<Rightarrow> (SysExit 1, [])
      | Some key \<Rightarrow>
          if key = [] then (SysExit 1, [])
          else
            (case find (path_exists env) ICON_PATHS of
               None \<Rightarrow> (SysExit 1, [Client_created key])
             | Some icon_path \<Rightarrow>
                 if output_dir_fails env then (Uncaught OSError, [Client_created key])
                 else
                   (case select_model env models_to_try of
                      (None, evs1) \<Rightarrow> (SysExit 1, Client_created key # evs1)
                    | (Some model_name, evs1) \<Rightarrow>
                        (case generate_feature_graphic env model_name icon_path of
                           (ok, evs2) \<Rightarrow>
                             (if ok then Returned else SysExit 1,
                              Client_created key # evs1 @ evs2)))))"

text \<open>The events that construct the client or reach the network, and the files written.\<close>

fun is_contact :: "event \<Rightarrow> bool" where
  "is_contact (Stdout s) = False"
| "is_contact (Client_created k) = True"
| "is_contact (Probe_request m) = True"
| "is_contact (Generation_request m) = True"
| "is_contact (File_saved p i) = False"


section \<open>Concrete inputs\<close>

text \<open>A resampling filter that paints every pixel 0, for runs on concrete inputs.\<close>

definition flat_filter :: resampler where
  "flat_filter img sz x y = 0"

text \<open>A small image whose pixels are all different.\<close>

definition image_3x3 :: image where
  "image_3x3 = \<lparr>width = 3, height = 3, mode = ''RGB'', rows = [[1, 2, 3], [4, 5, 6], [7, 8, 9]]\<rparr>"

text \<open>A wide and a tall image.\<close>

definition image_4x2 :: image where
  "image_4x2 = \<lparr>width = 4, height = 2, mode = ''RGB'', rows = [[1, 2, 3, 4], [5, 6, 7, 8]]\<rparr>"

definition image_2x4 :: image where
  "image_2x4 = \<lparr>width = 2, height = 4, mode = ''RGB'', rows = [[1, 2], [3, 4], [5, 6], [7, 8]]\<rparr>"

text \<open>
  A run of the cropper on a directory whose only PNG file cannot be opened, with a
  standard output that can print the marks.
\<close>

definition unreadable_env :: cropper_env where
  "unreadable_env =
     \<lparr>argv = [''crop-for-apple.py''], input_dir_exists = True,
      png_files = [\<lparr>file_name = ''01.png'', opened = None, save_fails = False\<rparr>],
      mkdir_fails = False, stdout_encodes_marks = True\<rparr>"

text \<open>
  Runs of the feature-graphic script: \<open>no_key_env\<close> has no credential;
  \<open>text_only_env\<close> has one, an icon, a model that answers, and an answer made of one
  text part.
\<close>

definition icon_1x1 :: image where
  "icon_1x1 = \<lparr>width = 1, height = 1, mode = ''RGBA'', rows = [[0]]\<rparr>"

definition text_part :: part where
  "text_part = \<lparr>part_type = ''Part'', inline_data = None, part_text = Some ''No image today''\<rparr>"

definition no_key_env :: feature_env where
  "no_key_env =
     \<lparr>api_key = None, path_exists = (\<lambda>p. True), output_dir_fails = False,
      probe = (\<lambda>m. True), open_icon = (\<lambda>p. Some icon_1x1),
      generate_content = (\<lambda>m. Inr \<lparr>parts = Some [text_part]\<rparr>),
      decode_image = (\<lambda>b. None), lanczos = flat_filter, flatten_rgba = (\<lambda>i. i),
      convert_rgb = (\<lambda>i. i), png_save_fails = False, size_kb = 0,
      error_text = (\<lambda>e. ''Exception'')\<rparr>"


section \<open>Properties of the rounding\<close>

text \<open>
  Rounding is monotone, keeps every number that has a 53-bit significand (so it is
  idempotent and exact on the integers up to \<open>2 ^ 53\<close>), and keeps the sign.
\<close>

lemma rne_lower: "\<lfloor>x\<rfloor> \<le> rne x"
  by (simp add: rne_def Let_def)

lemma rne_upper: "rne x \<le> \<lfloor>x\<rfloor> + 1"
  by (simp add: rne_def Let_def)

lemma rne_of_int: "rne (of_int n) = n"
  by (simp add: rne_def)

lemma rne_mono:
  assumes "x \<le> y"
  shows "rne x \<le> rne y"
proof (cases "\<lfloor>x\<rfloor> = \<lfloor>y\<rfloor>")
  case True
  then have "x - of_int \<lfloor>x\<rfloor> \<le> y - of_int \<lfloor>y\<rfloor>"
    using assms by simp
  with True show ?thesis
    by (auto simp: rne_def Let_def)
next
  case False
  have "\<lfloor>x\<rfloor> \<le> \<lfloor>y\<rfloor>"
    using assms by (rule floor_mono)
  with False have "\<lfloor>x\<rfloor> + 1 \<le> \<lfloor>y\<rfloor>"
    by simp
  with rne_upper [of x] rne_lower [of y] show ?thesis
    by linarith
qed

lemma flog2_lower:
  assumes "0 < q"
  shows "2 powi (flog2 q) \<le> q"
proof (cases "1 \<le> q")
  case True
  then have pos: "0 < \<lfloor>q\<rfloor>"
    by simp
  have k: "1 \<le> bitlen \<lfloor>q\<rfloor>"
    using pos bitlen_eq_zero_iff [of "\<lfloor>q\<rfloor>"] bitlen_nonneg [of "\<lfloor>q\<rfloor>"] by linarith
  have "(2::int) ^ nat (bitlen \<lfloor>q\<rfloor> - 1) \<le> \<lfloor>q\<rfloor>"
    using bitlen_bounds [OF pos] by simp
  then have "(2::rat) ^ nat (bitlen \<lfloor>q\<rfloor> - 1) \<le> q"
    by (simp add: le_floor_iff)
  with True k show ?thesis
    by (simp add: flog2_def power_int_def)
next
  case False
  define n where "n = \<lceil>1 / q\<rceil>"
  define k where "k = bitlen (n - 1)"
  from False assms have r: "1 < 1 / q"
    by simp
  then have n2: "0 < n - 1"
    unfolding n_def by (simp add: less_ceiling_iff)
  have "n - 1 < (2::int) ^ nat k"
    unfolding k_def using bitlen_bounds [OF n2] by simp
  then have "n \<le> (2::int) ^ nat k"
    by simp
  then have "1 / q \<le> (2::rat) ^ nat k"
    unfolding n_def by (simp add: ceiling_le_iff)
  then have "1 / 2 ^ nat k \<le> q"
    using assms by (simp add: field_simps)
  moreover have "1 \<le> k"
    unfolding k_def using n2 bitlen_eq_zero_iff [of "n - 1"] bitlen_nonneg [of "n - 1"] by linarith
  ultimately show ?thesis
    using False by (simp add: flog2_def n_def [symmetric] k_def [symmetric] power_int_def inverse_eq_divide power_one_over)
qed

lemma flog2_upper:
  assumes "0 < q"
  shows "q < 2 powi (flog2 q + 1)"
proof (cases "1 \<le> q")
  case True
  then have pos: "0 < \<lfloor>q\<rfloor>"
    by simp
  have "\<lfloor>q\<rfloor> < (2::int) ^ nat (bitlen \<lfloor>q\<rfloor>)"
    using bitlen_bounds [OF pos] by simp
  then have "q < (2::rat) ^ nat (bitlen \<lfloor>q\<rfloor>)"
    by (simp add: floor_less_iff)
  with True bitlen_nonneg [of "\<lfloor>q\<rfloor>"] show ?thesis
    by (simp add: flog2_def power_int_def)
next
  case False
  define n where "n = \<lceil>1 / q\<rceil>"
  define k where "k = bitlen (n - 1)"
  from False assms have r: "1 < 1 / q"
    by simp
  then have n2: "0 < n - 1"
    unfolding n_def by (simp add: less_ceiling_iff)
  have k1: "1 \<le> k"
    unfolding k_def using n2 bitlen_eq_zero_iff [of "n - 1"] bitlen_nonneg [of "n - 1"] by linarith
  have "(2::int) ^ nat (k - 1) \<le> n - 1"
    unfolding k_def using bitlen_bounds [OF n2] by simp
  then have "(2::int) ^ nat (k - 1) < n"
    by simp
  then have "(2::rat) ^ nat (k - 1) < 1 / q"
    unfolding n_def by (simp add: less_ceiling_iff)
  then have "q < 1 / 2 ^ nat (k - 1)"
    using assms by (simp add: field_simps)
  moreover have "- k + 1 \<le> 0"
    using k1 by simp
  moreover have "nat (- (- k + 1)) = nat (k - 1)"
    by simp
  ultimately show ?thesis
    using False k1 by (simp add: flog2_def n_def [symmetric] k_def [symmetric] power_int_def inverse_eq_divide power_one_over)
qed

lemma flog2_unique:
  assumes "0 < q" "2 powi e \<le> q" "q < 2 powi (e + 1)"
  shows "flog2 q = e"
proof -
  have "2 powi e < (2::rat) powi (flog2 q + 1)"
    using assms(2) flog2_upper [OF assms(1)] by simp
  then have a: "e < flog2 q + 1"
    by (metis linorder_not_less one_le_numeral power_int_increasing)
  have "2 powi (flog2 q) < (2::rat) powi (e + 1)"
    using assms(3) flog2_lower [OF assms(1)] by simp
  then have b: "flog2 q < e + 1"
    by (metis linorder_not_less one_le_numeral power_int_increasing)
  from a b show ?thesis by simp
qed

lemma fl_pos:
  assumes "0 < q"
  shows "fl q = of_int (rne (q / 2 powi (flog2 q - 52))) * 2 powi (flog2 q - 52)"
  using assms by (simp add: fl_def Let_def)

lemma powi_split52: "(2::rat) powi e = 2 powi (e - 52) * 2 ^ 52"
  using power_int_add [of "2::rat" "e - 52" 52] by simp

lemma powi_split53: "(2::rat) powi (e + 1) = 2 powi (e - 52) * 2 ^ 53"
  using power_int_add [of "2::rat" "e - 52" 53] by (simp add: add.commute)

lemma scaled_lower:
  assumes "0 < q"
  shows "2 ^ 52 \<le> q / 2 powi (flog2 q - 52)"
proof -
  have "2 powi (flog2 q - 52) * 2 ^ 52 \<le> q"
    using flog2_lower [OF assms] powi_split52 [of "flog2 q"] by simp
  then show ?thesis
    by (simp add: pos_le_divide_eq mult.commute)
qed

lemma scaled_upper:
  assumes "0 < q"
  shows "q / 2 powi (flog2 q - 52) < 2 ^ 53"
proof -
  have "q < 2 powi (flog2 q - 52) * 2 ^ 53"
    using flog2_upper [OF assms] powi_split53 [of "flog2 q"] by simp
  then show ?thesis
    by (simp add: pos_divide_less_eq mult.commute)
qed

lemma mant_lower:
  assumes "0 < q"
  shows "2 ^ 52 \<le> rne (q / 2 powi (flog2 q - 52))"
proof -
  have "rne (of_int (2 ^ 52)) \<le> rne (q / 2 powi (flog2 q - 52))"
    using scaled_lower [OF assms] by (intro rne_mono) simp
  then show ?thesis
    by (simp only: rne_of_int)
qed

lemma mant_upper:
  assumes "0 < q"
  shows "rne (q / 2 powi (flog2 q - 52)) \<le> 2 ^ 53"
proof -
  have "rne (q / 2 powi (flog2 q - 52)) \<le> rne (of_int (2 ^ 53))"
    using scaled_upper [OF assms] by (intro rne_mono) simp
  then show ?thesis
    by (simp only: rne_of_int)
qed

lemma fl_lower:
  assumes "0 < q"
  shows "2 powi (flog2 q) \<le> fl q"
proof -
  have "(2::rat) ^ 52 \<le> of_int (rne (q / 2 powi (flog2 q - 52)))"
    using mant_lower [OF assms] by (metis of_int_le_iff of_int_numeral of_int_power)
  then have "(2::rat) ^ 52 * 2 powi (flog2 q - 52) \<le> of_int (rne (q / 2 powi (flog2 q - 52))) * 2 powi (flog2 q - 52)"
    by (intro mult_right_mono) simp_all
  then show ?thesis
    using powi_split52 [of "flog2 q"] fl_pos [OF assms] by (simp add: mult.commute)
qed

lemma fl_upper:
  assumes "0 < q"
  shows "fl q \<le> 2 powi (flog2 q + 1)"
proof -
  have "of_int (rne (q / 2 powi (flog2 q - 52))) \<le> (2::rat) ^ 53"
    using mant_upper [OF assms] by (metis of_int_le_iff of_int_numeral of_int_power)
  then have "of_int (rne (q / 2 powi (flog2 q - 52))) * 2 powi (flog2 q - 52) \<le> (2::rat) ^ 53 * 2 powi (flog2 q - 52)"
    by (intro mult_right_mono) simp_all
  then show ?thesis
    using powi_split53 [of "flog2 q"] fl_pos [OF assms] by (simp add: mult.commute)
qed

lemma fl_gt_0:
  assumes "0 < q"
  shows "0 < fl q"
proof -
  have "(0::rat) < 2 powi (flog2 q)"
    by simp
  with fl_lower [OF assms] show ?thesis
    by linarith
qed

lemma fl_mono_pos:
  assumes "0 < x" "x \<le> y"
  shows "fl x \<le> fl y"
proof -
  have ypos: "0 < y"
    using assms by simp
  have "2 powi (flog2 x) < (2::rat) powi (flog2 y + 1)"
    using flog2_lower [OF assms(1)] flog2_upper [OF ypos] assms(2) by linarith
  then have le: "flog2 x \<le> flog2 y"
    by (metis linorder_not_less one_le_numeral power_int_increasing zle_add1_eq_le)
  show ?thesis
  proof (cases "flog2 x = flog2 y")
    case True
    have "x / 2 powi (flog2 y - 52) \<le> y / 2 powi (flog2 y - 52)"
      using assms(2) by (simp add: divide_right_mono)
    then have "rne (x / 2 powi (flog2 y - 52)) \<le> rne (y / 2 powi (flog2 y - 52))"
      by (rule rne_mono)
    then have "(of_int (rne (x / 2 powi (flog2 y - 52))) :: rat) * 2 powi (flog2 y - 52)
        \<le> of_int (rne (y / 2 powi (flog2 y - 52))) * 2 powi (flog2 y - 52)"
      by (intro mult_right_mono) simp_all
    then show ?thesis
      using True fl_pos [OF assms(1)] fl_pos [OF ypos] by simp
  next
    case False
    with le have "flog2 x + 1 \<le> flog2 y"
      by simp
    then have "(2::rat) powi (flog2 x + 1) \<le> 2 powi (flog2 y)"
      by (intro power_int_increasing) simp_all
    with fl_upper [OF assms(1)] fl_lower [OF ypos] show ?thesis
      by linarith
  qed
qed

lemma fl_0: "fl 0 = 0"
  by (simp add: fl_def)

lemma fl_mono:
  assumes "0 \<le> x" "x \<le> y"
  shows "fl x \<le> fl y"
proof (cases "x = 0")
  case True
  show ?thesis
  proof (cases "y = 0")
    case True
    with \<open>x = 0\<close> show ?thesis by simp
  next
    case False
    with assms True have "0 < y" by simp
    from fl_gt_0 [OF this] True show ?thesis
      by (simp add: fl_0)
  qed
next
  case False
  with assms have "0 < x" by simp
  then show ?thesis
    using assms(2) by (rule fl_mono_pos)
qed

lemma fl_int_scaled:
  assumes "0 < q" "q / 2 powi (flog2 q - 52) = of_int n"
  shows "fl q = q"
proof -
  have "fl q = of_int n * 2 powi (flog2 q - 52)"
    using fl_pos [OF assms(1)] assms(2) by (simp add: rne_of_int)
  also have "\<dots> = q"
    using assms(2) by (simp add: field_simps)
  finally show ?thesis .
qed

lemma fl_exact:
  assumes m: "0 < m" "m \<le> 2 ^ 53" and q: "q = of_int m * 2 powi k"
  shows "fl q = q"
proof -
  have qpos: "0 < q"
    using m q by simp
  define e where "e = flog2 q"
  have lo: "2 powi e \<le> q" and hi: "q < 2 powi (e + 1)"
    unfolding e_def using flog2_lower [OF qpos] flog2_upper [OF qpos] by simp_all
  have mr: "(of_int m :: rat) \<le> 2 ^ 53"
    using m(2) by (metis of_int_le_iff of_int_numeral of_int_power)
  show ?thesis
  proof (cases "e - 52 \<le> k")
    case True
    have "q / 2 powi (e - 52) = of_int m * 2 powi (k - (e - 52))"
      unfolding q by (simp add: power_int_diff)
    also have "\<dots> = of_int (m * 2 ^ nat (k - (e - 52)))"
      using True by (simp add: power_int_def)
    finally show ?thesis
      using fl_int_scaled [OF qpos] unfolding e_def by blast
  next
    case False
    have "q \<le> 2 ^ 53 * 2 powi k"
      unfolding q using mr by (intro mult_right_mono) simp_all
    also have "\<dots> = 2 powi (k + 53)"
      using power_int_add [of "2::rat" k 53] by simp
    finally have "2 powi e \<le> (2::rat) powi (k + 53)"
      using lo by simp
    then have "e \<le> k + 53"
      by (metis linorder_not_less one_less_numeral_iff power_int_strict_increasing semiring_norm(76))
    with False have ek: "e = k + 53"
      by simp
    have "2 powi k * (2::rat) ^ 53 \<le> of_int m * 2 powi k"
      using lo power_int_add [of "2::rat" k 53] unfolding ek q by (simp add: mult.commute)
    then have "(2::rat) ^ 53 \<le> of_int m"
      by (simp add: mult.commute)
    with mr have "(of_int m :: rat) = 2 ^ 53"
      by simp
    then have "q = 2 powi (k + 53)"
      unfolding q using power_int_add [of "2::rat" k 53] by (simp add: mult.commute)
    moreover have "(2::rat) powi (k + 53) = 2 powi (k + 1) * 2 ^ 52"
      using power_int_add [of "2::rat" "k + 1" 52] by (simp add: add.commute)
    ultimately have "q = 2 powi (k + 1) * 2 ^ 52"
      by simp
    moreover have "e - 52 = k + 1"
      unfolding ek by simp
    ultimately have "q / 2 powi (e - 52) = of_int (2 ^ 52)"
      by (simp add: add.commute)
    then show ?thesis
      using fl_int_scaled [OF qpos] unfolding e_def by blast
  qed
qed

lemma fl_idem:
  assumes "0 \<le> q"
  shows "fl (fl q) = fl q"
proof (cases "q = 0")
  case True
  then show ?thesis by (simp add: fl_0)
next
  case False
  with assms have qpos: "0 < q" by simp
  have "0 < (2::int) ^ 52" by simp
  with mant_lower [OF qpos] have "0 < rne (q / 2 powi (flog2 q - 52))"
    by linarith
  then show ?thesis
    using mant_upper [OF qpos] fl_pos [OF qpos] by (rule fl_exact)
qed

lemma fl_of_int:
  assumes "0 \<le> n" "n \<le> 2 ^ 53"
  shows "fl (of_int n) = of_int n"
proof (cases "n = 0")
  case True
  then show ?thesis by (simp add: fl_0)
next
  case False
  with assms have "0 < n" by simp
  then show ?thesis
    using assms(2) fl_exact [of n "of_int n" 0] by simp
qed

section \<open>The cropper's command line and exit status\<close>

lemma target_dimensions_total: "\<exists>d. target_dimensions av = Inr d"
  by (simp add: target_dimensions_def size_key_def APPLE_DIMENSIONS_def DEFAULT_SIZE_def)

text \<open>
  Claim C8. The target is the table's entry for the first argument when there is one and
  it is a key of the table; with no argument, or with one that is not a key, it is the
  entry of the default key "6.7", which is (1284, 2778).
\<close>

theorem C8_target_selection:
  "(1 < length av \<and> map_of APPLE_DIMENSIONS (av ! 1) = Some d \<longrightarrow> target_dimensions av = Inr d) \<and>
   (\<not> (1 < length av \<and> av ! 1 \<in> fst ` set APPLE_DIMENSIONS) \<longrightarrow>
      target_dimensions av = Inr (1284, 2778)) \<and>
   map_of APPLE_DIMENSIONS DEFAULT_SIZE = Some (1284, 2778)"
  by (auto simp add: target_dimensions_def size_key_def APPLE_DIMENSIONS_def DEFAULT_SIZE_def
      split: if_splits)

theorem C8_target_selection_witness:
  "target_dimensions [''crop-for-apple.py'', ''6.5''] = Inr (1242, 2688) \<and>
   target_dimensions [''crop-for-apple.py'', ''6.7''] = Inr (1284, 2778) \<and>
   target_dimensions [''crop-for-apple.py'', ''5.5''] = Inr (1284, 2778) \<and>
   target_dimensions [''crop-for-apple.py''] = Inr (1284, 2778)"
  using C8_target_selection [of "[''crop-for-apple.py'', ''6.5'']" "(1242, 2688)"]
    C8_target_selection [of "[''crop-for-apple.py'', ''6.7'']" "(1284, 2778)"]
    C8_target_selection [of "[''crop-for-apple.py'', ''5.5'']"]
    C8_target_selection [of "[''crop-for-apple.py'']"]
  by (simp add: APPLE_DIMENSIONS_def)

text \<open>
  Claim C1 says that the cropper exits with status 1 when every enumerated image fails.
  The code in the run on \<open>unreadable_env\<close>, where the input directory exists and its
  only PNG file cannot be opened: the exception is caught in the loop, no image
  succeeds, nothing is saved, line 120 prints the failure mark, \<^verbatim>\<open>main\<close> returns and the
  exit status is 0.
\<close>

theorem C1_complete_failure_exits_0:
  "input_dir_exists unreadable_env \<and> length (png_files unreadable_env) = 1 \<and>
   success (main_crop_for_apple flat_filter unreadable_env) = 0 \<and>
   saved (main_crop_for_apple flat_filter unreadable_env) = [] \<and>
   outcome (main_crop_for_apple flat_filter unreadable_env) = Returned \<and>
   exit_status (outcome (main_crop_for_apple flat_filter unreadable_env)) = 0"
  by (simp add: main_crop_for_apple_def unreadable_env_def target_dimensions_def size_key_def
      APPLE_DIMENSIONS_def DEFAULT_SIZE_def)

section \<open>The feature-graphic script: missing credential, answer without image\<close>









text \<open>
  Claim C7. With GOOGLE_API_KEY unset the process exits with status 1, and the run
  neither constructs the client nor sends a trial or a generation request.
\<close>

theorem C7_no_key_no_contact:
  "api_key env = None \<Longrightarrow>
     exit_status (fst (main_generate_feature_graphic env)) = 1 \<and>
     filter is_contact (snd (main_generate_feature_graphic env)) = []"
  by (simp add: main_generate_feature_graphic_def)

theorem C7_no_key_no_contact_witness:
  "api_key no_key_env = None \<and>
   exit_status (fst (main_generate_feature_graphic no_key_env)) = 1 \<and>
   filter is_contact (snd (main_generate_feature_graphic no_key_env)) = []"
  using C7_no_key_no_contact [of no_key_env]
  by (simp add: no_key_env_def)



section \<open>The Pillow operations\<close>

lemma getpixel_raster:
  assumes "0 \<le> x" "x < w" "0 \<le> y" "y < h"
  shows "getpixel \<lparr>width = w, height = h, mode = m, rows = raster w h f\<rparr> x y = f x y"
proof -
  have "nat y < nat h" "nat x < nat w"
    using assms by simp_all
  then show ?thesis
    using assms by (simp add: getpixel_def raster_def)
qed

lemma raster_cong:
  assumes "\<And>x y. 0 \<le> x \<Longrightarrow> x < w \<Longrightarrow> 0 \<le> y \<Longrightarrow> y < h \<Longrightarrow> f x y = g x y"
  shows "raster w h f = raster w h g"
  unfolding raster_def
  by (intro map_cong refl) (auto intro!: assms)

lemma crop_Inr:
  assumes "crop img (l, u, r, lo) = Inr out"
  shows "l \<le> r \<and> u \<le> lo \<and>
         out = \<lparr>width = r - l, height = lo - u, mode = mode img,
                rows = raster (r - l) (lo - u) (\<lambda>x y. getpixel img (l + x) (u + y))\<rparr>"
  using assms by (auto split: if_splits)

lemma resize_size:
  assumes "resize filt img (w, h) = Inr out"
  shows "width out = w \<and> height out = h"
  using assms by (auto split: if_splits)

lemma resize_ok:
  assumes "1 \<le> w" "1 \<le> h"
  shows "\<exists>out. resize filt img (w, h) = Inr out"
  using assms by auto

lemma crop_whole:
  assumes "0 \<le> w" "0 \<le> h"
  shows "crop \<lparr>width = w, height = h, mode = m, rows = raster w h f\<rparr> (0, 0, w, h)
         = Inr \<lparr>width = w, height = h, mode = m, rows = raster w h f\<rparr>"
proof -
  have "raster w h (\<lambda>x y. getpixel \<lparr>width = w, height = h, mode = m, rows = raster w h f\<rparr> x y)
        = raster w h f"
    by (rule raster_cong) (simp add: getpixel_raster)
  then show ?thesis
    using assms by simp
qed

lemma crop_box_size:
  "crop_box (w, h) tw th = (l, u, r, lo) \<Longrightarrow> r - l = tw \<and> lo - u = th"
  by (auto simp: Let_def)

lemma crop_to_target:
  assumes "0 \<le> tw" "0 \<le> th"
  shows "\<exists>out. crop img (crop_box (w, h) tw th) = Inr out \<and> width out = tw \<and> height out = th"
  using assms by (simp add: Let_def)

section \<open>crop_center\<close>

lemma fl_1: "fl 1 = 1"
  using fl_of_int [of 1] by simp

lemma fl_ge_1:
  assumes "1 \<le> q"
  shows "1 \<le> fl q"
  using fl_mono [of 1 q] assms by (simp add: fl_1)

lemma py_int_ge_1:
  assumes "1 \<le> q"
  shows "1 \<le> py_int q"
proof -
  have "\<lfloor>1::rat\<rfloor> \<le> \<lfloor>q\<rfloor>"
    using assms by (rule floor_mono)
  then show ?thesis
    using assms by (simp add: py_int_def)
qed

lemma int_mul_float_ge_1:
  assumes "1 \<le> n" "1 \<le> s"
  shows "1 \<le> py_int (int_mul_float n s)"
proof -
  have "(1::rat) \<le> of_int n"
    using assms(1) by simp
  then have "1 \<le> float_of_int n"
    unfolding float_of_int_def by (rule fl_ge_1)
  then have "1 * 1 \<le> float_of_int n * s"
    using assms(2) by (intro mult_mono) simp_all
  then have "1 \<le> fl (float_of_int n * s)"
    by (intro fl_ge_1) simp
  then show ?thesis
    unfolding int_mul_float_def by (rule py_int_ge_1)
qed

lemma upscale_factor_ge_1:
  assumes "0 < w" "0 < h" "w < tw \<or> h < th"
  shows "upscale_factor (w, h) tw th = Inr (max (fl (of_int tw / of_int w)) (fl (of_int th / of_int h)))"
    and "1 \<le> max (fl (of_int tw / of_int w)) (fl (of_int th / of_int h))"
proof -
  show "upscale_factor (w, h) tw th = Inr (max (fl (of_int tw / of_int w)) (fl (of_int th / of_int h)))"
    using assms by (simp add: int_truediv_def)
  from assms(3) show "1 \<le> max (fl (of_int tw / of_int w)) (fl (of_int th / of_int h))"
  proof
    assume "w < tw"
    then have "(1::rat) \<le> of_int tw / of_int w"
      using assms(1) by simp
    then have "1 \<le> fl (of_int tw / of_int w)"
      by (rule fl_ge_1)
    then show ?thesis by simp
  next
    assume "h < th"
    then have "(1::rat) \<le> of_int th / of_int h"
      using assms(2) by simp
    then have "1 \<le> fl (of_int th / of_int h)"
      by (rule fl_ge_1)
    then show ?thesis by simp
  qed
qed

lemma crop_center_geometry_800:
  "upscale_factor (800, 800) 1284 2778 = Inr (fl (34725 / 10000)) \<and>
   crop_center_geometry (800, 800) 1284 2778 = Inr ((2778, 2778), (747, 0, 2031, 2778))"
  by code_simp

lemma crop_center_geometry_2000:
  "\<not> needs_upscale (2000, 3000) 1284 2778 \<and>
   crop_center_geometry (2000, 3000) 1284 2778 = Inr ((2000, 3000), (358, 111, 1642, 2889))"
  by code_simp

text \<open>
  Claim C2 says that the crop box of \<^verbatim>\<open>crop_center\<close> always lies inside the image that
  is cropped. The code at a source of 1250 x 2778 pixels and the target (1284, 2778):
  the scale is the float nearest to 1284 / 1250, the float product 1250 * scale lies
  below 1284, so \<^verbatim>\<open>int\<close> gives the width 1283, one less than the target, and the crop box
  starts at column -1.
\<close>

theorem C2_crop_box_leaves_image:
  "crop_center_geometry (1250, 2778) 1284 2778 = Inr ((1283, 2853), (- 1, 37, 1283, 2815))"
  by code_simp

lemma crop_center_no_upscale:
  assumes "\<not> needs_upscale (width img, height img) tw th"
  shows "crop_center filt img tw th = crop img (crop_box (width img, height img) tw th)"
  using assms by (simp add: crop_center_def)

lemma crop_center_upscale:
  assumes "needs_upscale (width img, height img) tw th"
    and "upscale_size (width img, height img) tw th = Inr (nw, nh)"
    and "resize filt img (nw, nh) = Inr img1"
  shows "crop_center filt img tw th = crop img1 (crop_box (nw, nh) tw th)"
proof -
  have "width img1 = nw \<and> height img1 = nh"
    using assms(3) by (rule resize_size)
  then show ?thesis
    using assms by (simp add: crop_center_def del: crop_box.simps upscale_size.simps resize.simps needs_upscale.simps)
qed

lemma upscale_size_ok:
  assumes "0 < w" "0 < h" "w < tw \<or> h < th"
  shows "\<exists>nw nh. upscale_size (w, h) tw th = Inr (nw, nh) \<and> 1 \<le> nw \<and> 1 \<le> nh \<and>
           nw = py_int (int_mul_float w (max (fl (of_int tw / of_int w)) (fl (of_int th / of_int h)))) \<and>
           nh = py_int (int_mul_float h (max (fl (of_int tw / of_int w)) (fl (of_int th / of_int h))))"
proof -
  let ?s = "max (fl (of_int tw / of_int w)) (fl (of_int th / of_int h))"
  have f: "upscale_factor (w, h) tw th = Inr ?s" and s1: "1 \<le> ?s"
    using upscale_factor_ge_1 [OF assms] by blast+
  have "1 \<le> py_int (int_mul_float w ?s)" "1 \<le> py_int (int_mul_float h ?s)"
    using assms(1,2) s1 by (simp_all add: int_mul_float_ge_1)
  then show ?thesis
    using f by (simp del: upscale_factor.simps)
qed

lemma crop_center_geometry_link:
  "crop_center filt img tw th =
     (case crop_center_geometry (width img, height img) tw th of
        Inl e \<Rightarrow> Inl e
      | Inr (size1, bx) \<Rightarrow>
          (case resize filt img size1 of
             Inl e \<Rightarrow> Inl e
           | Inr img1 \<Rightarrow> crop img1 bx))"
proof (cases "needs_upscale (width img, height img) tw th")
  case False
  then show ?thesis
    by (simp add: crop_center_def crop_center_geometry_def
        del: crop_box.simps needs_upscale.simps)
next
  case True
  show ?thesis
  proof (cases "upscale_size (width img, height img) tw th")
    case (Inl e)
    with True show ?thesis
      by (simp add: crop_center_def crop_center_geometry_def
          del: crop_box.simps needs_upscale.simps upscale_size.simps)
  next
    case (Inr sz)
    obtain nw nh where sz: "sz = (nw, nh)"
      by (cases sz)
    show ?thesis
    proof (cases "resize filt img (nw, nh)")
      case (Inl e)
      with True Inr sz show ?thesis
        by (simp add: crop_center_def crop_center_geometry_def
            del: crop_box.simps needs_upscale.simps upscale_size.simps resize.simps)
    next
      case r: (Inr img1)
      have "width img1 = nw \<and> height img1 = nh"
        using r by (rule resize_size)
      with True Inr sz r show ?thesis
        by (simp add: crop_center_def crop_center_geometry_def
            del: crop_box.simps needs_upscale.simps upscale_size.simps resize.simps)
    qed
  qed
qed

text \<open>
  Claim C3. For a source at least as wide and as high as the target, \<^verbatim>\<open>crop_center\<close>
  crops the source itself (the result does not depend on the resampling filter), the
  result has exactly the target size, and its pixel at \<open>(x, y)\<close> is the pixel of the
  source at \<open>((width - target_width) div 2 + x, (height - target_height) div 2 + y)\<close>.
  For a 2000 x 3000 source and the target (1284, 2778) nothing is upscaled and the
  crop origin is (358, 111).
\<close>

theorem C3_no_upscale_exact_crop:
  assumes "target_width \<le> width img" "target_height \<le> height img"
    and "0 \<le> target_width" "0 \<le> target_height"
  shows "(\<exists>out. crop_center filt img target_width target_height = Inr out \<and>
            crop img ((width img - target_width) div 2, (height img - target_height) div 2,
                      (width img - target_width) div 2 + target_width,
                      (height img - target_height) div 2 + target_height) = Inr out \<and>
            width out = target_width \<and> height out = target_height \<and>
            (\<forall>x y. 0 \<le> x \<and> x < target_width \<and> 0 \<le> y \<and> y < target_height \<longrightarrow>
               getpixel out x y =
                 getpixel img ((width img - target_width) div 2 + x)
                              ((height img - target_height) div 2 + y))) \<and>
         \<not> needs_upscale (2000, 3000) 1284 2778 \<and>
         crop_center_geometry (2000, 3000) 1284 2778 = Inr ((2000, 3000), (358, 111, 1642, 2889))"
proof -
  have no: "\<not> needs_upscale (width img, height img) target_width target_height"
    using assms by simp
  let ?l = "(width img - target_width) div 2"
  let ?u = "(height img - target_height) div 2"
  let ?out = "\<lparr>width = target_width, height = target_height, mode = mode img,
               rows = raster target_width target_height (\<lambda>x y. getpixel img (?l + x) (?u + y))\<rparr>"
  have c: "crop img (?l, ?u, ?l + target_width, ?u + target_height) = Inr ?out"
    using assms(3,4) by simp
  have cc: "crop_center filt img target_width target_height = Inr ?out"
    using crop_center_no_upscale [OF no, of filt] c by (simp add: Let_def)
  have px: "getpixel ?out x y = getpixel img (?l + x) (?u + y)"
    if "0 \<le> x \<and> x < target_width \<and> 0 \<le> y \<and> y < target_height" for x y
    using that by (simp add: getpixel_raster)
  from cc c px crop_center_geometry_2000 show ?thesis
    by simp
qed

lemma image_3x3_crop:
  "crop image_3x3 (1, 0, 2, 2) = Inr \<lparr>width = 1, height = 2, mode = ''RGB'', rows = [[2], [5]]\<rparr>"
  by code_simp

theorem C3_no_upscale_exact_crop_witness:
  "1 \<le> width image_3x3 \<and> 2 \<le> height image_3x3 \<and>
   crop_center flat_filter image_3x3 1 2 =
     Inr \<lparr>width = 1, height = 2, mode = ''RGB'', rows = [[2], [5]]\<rparr>"
proof -
  have sz: "width image_3x3 = 3" "height image_3x3 = 3"
    by (simp_all add: image_3x3_def)
  obtain out where "crop_center flat_filter image_3x3 1 2 = Inr out"
    and "crop image_3x3 (1, 0, 2, 2) = Inr out"
    using C3_no_upscale_exact_crop [of 1 image_3x3 2 flat_filter] by (auto simp add: sz)
  with image_3x3_crop sz show ?thesis
    by simp
qed

text \<open>
  Claim C4. For a source narrower or lower than the target, \<^verbatim>\<open>crop_center\<close> resizes to
  \<open>(int (width * scale), int (height * scale))\<close> with the one factor
  \<open>scale = max (target_width / width) (target_height / height)\<close> (float operations),
  crops the resized image, and returns an image of exactly the target size. For an
  800 x 800 source and the target (1284, 2778) the scale is the float written 3.4725,
  the resized image is 2778 x 2778, the crop origin is (747, 0) and the box is
  1284 x 2778.
\<close>

theorem C4_upscale_then_crop:
  assumes "0 < width img" "0 < height img"
    and "width img < target_width \<or> height img < target_height"
    and "0 < target_width" "0 < target_height"
  shows "(\<exists>scale img1 out.
            scale = max (fl (of_int target_width / of_int (width img)))
                        (fl (of_int target_height / of_int (height img))) \<and>
            upscale_factor (width img, height img) target_width target_height = Inr scale \<and>
            resize filt img (py_int (int_mul_float (width img) scale),
                             py_int (int_mul_float (height img) scale)) = Inr img1 \<and>
            crop img1 (crop_box (width img1, height img1) target_width target_height) = Inr out \<and>
            crop_center filt img target_width target_height = Inr out \<and>
            width out = target_width \<and> height out = target_height) \<and>
         upscale_factor (800, 800) 1284 2778 = Inr (fl (34725 / 10000)) \<and>
         crop_center_geometry (800, 800) 1284 2778 = Inr ((2778, 2778), (747, 0, 2031, 2778))"
proof -
  let ?s = "max (fl (of_int target_width / of_int (width img)))
                (fl (of_int target_height / of_int (height img)))"
  let ?nw = "py_int (int_mul_float (width img) ?s)"
  let ?nh = "py_int (int_mul_float (height img) ?s)"
  have up: "needs_upscale (width img, height img) target_width target_height"
    using assms(3) by simp
  have f: "upscale_factor (width img, height img) target_width target_height = Inr ?s"
    using upscale_factor_ge_1 [OF assms(1,2,3)] by blast
  have us: "upscale_size (width img, height img) target_width target_height = Inr (?nw, ?nh)"
    and pos: "1 \<le> ?nw" "1 \<le> ?nh"
    using upscale_size_ok [OF assms(1,2,3)] by auto
  obtain img1 where r: "resize filt img (?nw, ?nh) = Inr img1"
    using resize_ok [OF pos] by blast
  have sz1: "width img1 = ?nw \<and> height img1 = ?nh"
    using r by (rule resize_size)
  obtain out where c: "crop img1 (crop_box (?nw, ?nh) target_width target_height) = Inr out"
    and o: "width out = target_width \<and> height out = target_height"
    using crop_to_target [of target_width target_height img1 ?nw ?nh] assms(4,5) by auto
  have cc: "crop_center filt img target_width target_height = Inr out"
    using crop_center_upscale [OF up us r] c by simp
  from f r c cc o sz1 crop_center_geometry_800 show ?thesis
    by auto
qed

lemma image_3x3_upscaled:
  "crop_center flat_filter image_3x3 4 6 =
     Inr \<lparr>width = 4, height = 6, mode = ''RGB'',
          rows = [[0, 0, 0, 0], [0, 0, 0, 0], [0, 0, 0, 0], [0, 0, 0, 0], [0, 0, 0, 0], [0, 0, 0, 0]]\<rparr>"
  by code_simp

theorem C4_upscale_then_crop_witness:
  "0 < width image_3x3 \<and> 0 < height image_3x3 \<and> width image_3x3 < 4 \<and>
   upscale_factor (width image_3x3, height image_3x3) 4 6 = Inr 2 \<and>
   crop_center flat_filter image_3x3 4 6 =
     Inr \<lparr>width = 4, height = 6, mode = ''RGB'',
          rows = [[0, 0, 0, 0], [0, 0, 0, 0], [0, 0, 0, 0], [0, 0, 0, 0], [0, 0, 0, 0], [0, 0, 0, 0]]\<rparr>"
proof -
  have sz: "width image_3x3 = 3" "height image_3x3 = 3"
    by (simp_all add: image_3x3_def)
  have "fl (4 / 3) \<le> fl (6 / 3)"
    by (rule fl_mono) simp_all
  moreover have "fl (6 / 3) = 2"
    using fl_of_int [of 2] by simp
  ultimately have "max (fl (4 / 3)) (fl (6 / 3)) = 2"
    by simp
  then have "upscale_factor (width image_3x3, height image_3x3) 4 6 = Inr 2"
    using C4_upscale_then_crop [of image_3x3 4 6 flat_filter] by (auto simp add: sz)
  with image_3x3_upscaled sz show ?thesis
    by simp
qed

lemma crop_center_as_crop:
  assumes "0 < width img" "0 < height img"
  shows "\<exists>img1. crop_center filt img tw th = crop img1 (crop_box (width img1, height img1) tw th)"
proof (cases "needs_upscale (width img, height img) tw th")
  case False
  then show ?thesis
    using crop_center_no_upscale by blast
next
  case True
  then have lt: "width img < tw \<or> height img < th"
    by simp
  obtain nw nh where us: "upscale_size (width img, height img) tw th = Inr (nw, nh)"
    and pos: "1 \<le> nw" "1 \<le> nh"
    using upscale_size_ok [OF assms lt] by blast
  obtain img1 where r: "resize filt img (nw, nh) = Inr img1"
    using resize_ok [OF pos] by blast
  have "width img1 = nw \<and> height img1 = nh"
    using r by (rule resize_size)
  then show ?thesis
    using crop_center_upscale [OF True us r] by metis
qed

lemma crop_box_result:
  assumes "0 \<le> tw" "0 \<le> th"
  shows "crop img1 (crop_box (w, h) tw th) =
           Inr \<lparr>width = tw, height = th, mode = mode img1,
                rows = raster tw th (\<lambda>x y. getpixel img1 ((w - tw) div 2 + x) ((h - th) div 2 + y))\<rparr>"
  using assms by (simp add: Let_def)

lemma crop_center_fixpoint:
  assumes "0 \<le> tw" "0 \<le> th"
  shows "crop_center filt \<lparr>width = tw, height = th, mode = m, rows = raster tw th f\<rparr> tw th
         = Inr \<lparr>width = tw, height = th, mode = m, rows = raster tw th f\<rparr>"
proof -
  let ?out = "\<lparr>width = tw, height = th, mode = m, rows = raster tw th f\<rparr>"
  have "\<not> needs_upscale (width ?out, height ?out) tw th"
    by simp
  then have "crop_center filt ?out tw th = crop ?out (crop_box (width ?out, height ?out) tw th)"
    by (rule crop_center_no_upscale)
  also have "\<dots> = crop ?out (0, 0, tw, th)"
    by simp
  also have "\<dots> = Inr ?out"
    using assms by (rule crop_whole)
  finally show ?thesis .
qed

text \<open>
  Claim C10. For positive sizes, \<^verbatim>\<open>crop_center\<close> returns an image, and applied to that
  image with the same target it returns it unchanged.
\<close>

theorem C10_crop_center_idempotent:
  assumes "0 < width img" "0 < height img" "0 < target_width" "0 < target_height"
  shows "\<exists>out. crop_center filt img target_width target_height = Inr out \<and>
               crop_center filt out target_width target_height = Inr out"
proof -
  have t: "0 \<le> target_width" "0 \<le> target_height"
    using assms(3,4) by simp_all
  obtain img1 where
    "crop_center filt img target_width target_height =
       crop img1 (crop_box (width img1, height img1) target_width target_height)"
    using crop_center_as_crop [OF assms(1,2)] by blast
  then obtain m f where
    "crop_center filt img target_width target_height =
       Inr \<lparr>width = target_width, height = target_height, mode = m,
            rows = raster target_width target_height f\<rparr>"
    using crop_box_result [OF t] by metis
  then show ?thesis
    using crop_center_fixpoint [OF t] by metis
qed

lemma image_3x3_cropped:
  "crop_center flat_filter image_3x3 1 2 =
     Inr \<lparr>width = 1, height = 2, mode = ''RGB'', rows = [[2], [5]]\<rparr>"
  by code_simp

theorem C10_crop_center_idempotent_witness:
  "0 < width image_3x3 \<and> 0 < height image_3x3 \<and>
   crop_center flat_filter \<lparr>width = 1, height = 2, mode = ''RGB'', rows = [[2], [5]]\<rparr> 1 2 =
     Inr \<lparr>width = 1, height = 2, mode = ''RGB'', rows = [[2], [5]]\<rparr>"
proof -
  have sz: "0 < width image_3x3" "0 < height image_3x3"
    by (simp_all add: image_3x3_def)
  from C10_crop_center_idempotent [OF sz, of 1 2 flat_filter] image_3x3_cropped sz
  show ?thesis
    by auto
qed

section \<open>ensure_exact_size\<close>

lemma fl_nonneg:
  assumes "0 \<le> q"
  shows "0 \<le> fl q"
  using fl_mono [of 0 q] assms by (simp add: fl_0)

lemma py_int_nonneg:
  assumes "0 \<le> q"
  shows "0 \<le> py_int q"
  using assms by (simp add: py_int_def)

lemma py_int_le:
  assumes "0 \<le> q" "q \<le> of_int n"
  shows "py_int q \<le> n"
proof -
  have "\<lfloor>q\<rfloor> \<le> \<lfloor>of_int n :: rat\<rfloor>"
    using assms(2) by (rule floor_mono)
  then show ?thesis
    using assms(1) by (simp add: py_int_def)
qed

lemma float_of_int_exact:
  assumes "0 \<le> n" "n \<le> 2 ^ 53"
  shows "float_of_int n = of_int n"
  unfolding float_of_int_def using assms by (rule fl_of_int)

lemma float_of_int_nonneg:
  assumes "0 \<le> n"
  shows "0 \<le> float_of_int n"
  unfolding float_of_int_def using assms by (intro fl_nonneg) simp

text \<open>A float below the rounding of q is at most q; a float above it is at least q.\<close>

lemma fl_less_imp_le:
  assumes "0 \<le> p" "0 \<le> q" "fl p < fl q"
  shows "fl p \<le> q"
proof (rule ccontr)
  assume "\<not> fl p \<le> q"
  then have "q \<le> fl p" by simp
  then have "fl q \<le> fl (fl p)"
    using assms(2) by (intro fl_mono)
  then show False
    using assms(3) fl_idem [OF assms(1)] by simp
qed

lemma fl_greater_imp_ge:
  assumes "0 \<le> p" "0 \<le> q" "fl q < fl p"
  shows "q \<le> fl p"
proof (rule ccontr)
  assume "\<not> q \<le> fl p"
  then have "fl p \<le> q" by simp
  moreover have "0 \<le> fl p"
    using assms(1) by (rule fl_nonneg)
  ultimately have "fl (fl p) \<le> fl q"
    by (intro fl_mono)
  then show False
    using assms(3) fl_idem [OF assms(1)] by simp
qed

lemma ensure_crop_box_cases:
  assumes "0 < cw" "0 < ch" "0 < tw" "0 < th"
  shows "ensure_crop_box (cw, ch) tw th =
    (if fl (of_int tw / of_int th) < fl (of_int cw / of_int ch) then
       Inr (Some ((cw - py_int (int_mul_float ch (fl (of_int tw / of_int th)))) div 2, 0,
                  (cw - py_int (int_mul_float ch (fl (of_int tw / of_int th)))) div 2
                    + py_int (int_mul_float ch (fl (of_int tw / of_int th))), ch))
     else if fl (of_int cw / of_int ch) < fl (of_int tw / of_int th) then
       Inr (Some (0, (ch - py_int (fl (float_of_int cw / fl (of_int tw / of_int th)))) div 2, cw,
                  (ch - py_int (fl (float_of_int cw / fl (of_int tw / of_int th)))) div 2
                    + py_int (fl (float_of_int cw / fl (of_int tw / of_int th)))))
     else Inr None)"
proof -
  have "(0::rat) < of_int tw / of_int th"
    using assms(3,4) by simp
  then have "0 < fl (of_int tw / of_int th)"
    by (rule fl_gt_0)
  then show ?thesis
    using assms by (simp add: int_truediv_def int_div_float_def Let_def)
qed

lemma new_width_nonneg:
  assumes "0 < ch" "0 < tw" "0 < th"
  shows "0 \<le> py_int (int_mul_float ch (fl (of_int tw / of_int th)))"
proof -
  have "0 \<le> float_of_int ch"
    using assms(1) by (intro float_of_int_nonneg) simp
  moreover have "0 \<le> fl (of_int tw / of_int th)"
    using assms(2,3) by (intro fl_nonneg) simp
  ultimately have "0 \<le> float_of_int ch * fl (of_int tw / of_int th)"
    by (rule mult_nonneg_nonneg)
  then have "0 \<le> fl (float_of_int ch * fl (of_int tw / of_int th))"
    by (rule fl_nonneg)
  then show ?thesis
    unfolding int_mul_float_def by (rule py_int_nonneg)
qed

lemma new_height_nonneg:
  assumes "0 < cw" "0 < tw" "0 < th"
  shows "0 \<le> py_int (fl (float_of_int cw / fl (of_int tw / of_int th)))"
proof -
  have "0 \<le> float_of_int cw"
    using assms(1) by (intro float_of_int_nonneg) simp
  moreover have "0 \<le> fl (of_int tw / of_int th)"
    using assms(2,3) by (intro fl_nonneg) simp
  ultimately have "0 \<le> float_of_int cw / fl (of_int tw / of_int th)"
    by (rule divide_nonneg_nonneg)
  then have "0 \<le> fl (float_of_int cw / fl (of_int tw / of_int th))"
    by (rule fl_nonneg)
  then show ?thesis
    by (rule py_int_nonneg)
qed

lemma new_width_le:
  assumes "0 < cw" "cw \<le> 2 ^ 53" "0 < ch" "ch \<le> 2 ^ 53" "0 < tw" "0 < th"
    and "fl (of_int tw / of_int th) < fl (of_int cw / of_int ch)"
  shows "py_int (int_mul_float ch (fl (of_int tw / of_int th))) \<le> cw"
proof -
  let ?tr = "fl (of_int tw / of_int th)"
  have tr0: "0 \<le> ?tr"
    using assms(5,6) by (intro fl_nonneg) simp
  have "?tr \<le> of_int cw / of_int ch"
    using assms(1,3,5,6,7) by (intro fl_less_imp_le) simp_all
  then have "of_int ch * ?tr \<le> of_int cw"
    using assms(3) by (simp add: pos_le_divide_eq mult.commute)
  moreover have "0 \<le> (of_int ch :: rat) * ?tr"
    using tr0 assms(3) by simp
  ultimately have "fl (of_int ch * ?tr) \<le> fl (of_int cw)"
    by (intro fl_mono)
  also have "fl (of_int cw) = of_int cw"
    using assms(1,2) by (intro fl_of_int) simp_all
  finally have "fl (of_int ch * ?tr) \<le> of_int cw" .
  moreover have "0 \<le> fl (of_int ch * ?tr)"
    using tr0 assms(3) by (intro fl_nonneg) simp
  ultimately have "py_int (fl (of_int ch * ?tr)) \<le> cw"
    by (intro py_int_le)
  moreover have "float_of_int ch = of_int ch"
    using assms(3,4) by (intro float_of_int_exact) simp_all
  ultimately show ?thesis
    by (simp add: int_mul_float_def)
qed

lemma new_height_le:
  assumes "0 < cw" "cw \<le> 2 ^ 53" "0 < ch" "ch \<le> 2 ^ 53" "0 < tw" "0 < th"
    and "fl (of_int cw / of_int ch) < fl (of_int tw / of_int th)"
  shows "py_int (fl (float_of_int cw / fl (of_int tw / of_int th))) \<le> ch"
proof -
  let ?tr = "fl (of_int tw / of_int th)"
  have q: "(0::rat) < of_int cw / of_int ch"
    using assms(1,3) by simp
  have ge: "of_int cw / of_int ch \<le> ?tr"
    using assms(1,3,5,6,7) by (intro fl_greater_imp_ge) simp_all
  with q have trpos: "0 < ?tr"
    by linarith
  from ge have "of_int cw \<le> ?tr * of_int ch"
    using assms(3) by (simp add: pos_divide_le_eq)
  then have "of_int cw / ?tr \<le> of_int ch"
    using trpos by (simp add: pos_divide_le_eq mult.commute)
  moreover have "0 \<le> (of_int cw :: rat) / ?tr"
    using trpos assms(1) by simp
  ultimately have "fl (of_int cw / ?tr) \<le> fl (of_int ch)"
    by (intro fl_mono)
  also have "fl (of_int ch) = of_int ch"
    using assms(3,4) by (intro fl_of_int) simp_all
  finally have "fl (of_int cw / ?tr) \<le> of_int ch" .
  moreover have "0 \<le> fl (of_int cw / ?tr)"
    using trpos assms(1) by (intro fl_nonneg) simp
  ultimately have "py_int (fl (of_int cw / ?tr)) \<le> ch"
    by (intro py_int_le)
  moreover have "float_of_int cw = of_int cw"
    using assms(1,2) by (intro float_of_int_exact) simp_all
  ultimately show ?thesis
    by simp
qed

text \<open>
  Claim C9. For a source with positive sides (up to \<open>2 ^ 53\<close>, where the conversion of
  a side to float is exact; Pillow's sides are far smaller) and a positive target, the
  crop box of \<^verbatim>\<open>ensure_exact_size\<close> lies inside the source: in the wider branch
  \<open>0 \<le> new_width \<le> current_width\<close>, \<open>0 \<le> left\<close> and
  \<open>left + new_width \<le> current_width\<close>; in the taller branch the same holds for
  \<open>new_height\<close> and the upper edge. The crop never pads.
\<close>

theorem C9_aspect_crop_inside:
  assumes "0 < current_width" "current_width \<le> 2 ^ 53"
    and "0 < current_height" "current_height \<le> 2 ^ 53"
    and "0 < target_width" "0 < target_height"
    and "target_ratio = fl (of_int target_width / of_int target_height)"
    and "current_ratio = fl (of_int current_width / of_int current_height)"
    and "new_width = py_int (int_mul_float current_height target_ratio)"
    and "left = (current_width - new_width) div 2"
    and "new_height = py_int (fl (float_of_int current_width / target_ratio))"
    and "top' = (current_height - new_height) div 2"
  shows "(target_ratio < current_ratio \<longrightarrow>
            ensure_crop_box (current_width, current_height) target_width target_height
              = Inr (Some (left, 0, left + new_width, current_height)) \<and>
            0 \<le> new_width \<and> new_width \<le> current_width \<and>
            0 \<le> left \<and> left + new_width \<le> current_width) \<and>
         (current_ratio < target_ratio \<longrightarrow>
            ensure_crop_box (current_width, current_height) target_width target_height
              = Inr (Some (0, top', current_width, top' + new_height)) \<and>
            0 \<le> new_height \<and> new_height \<le> current_height \<and>
            0 \<le> top' \<and> top' + new_height \<le> current_height)"
proof -
  note cases = ensure_crop_box_cases [OF assms(1,3,5,6)]
  have wide: "0 \<le> new_width \<and> new_width \<le> current_width \<and>
              0 \<le> left \<and> left + new_width \<le> current_width"
    if "target_ratio < current_ratio"
  proof -
    have "0 \<le> new_width"
      unfolding assms(7,9) using assms(3,5,6) by (rule new_width_nonneg)
    moreover have "new_width \<le> current_width"
      unfolding assms(7,9) using assms(1-6) that [unfolded assms(7,8)] by (rule new_width_le)
    ultimately show ?thesis
      unfolding assms(10) by simp
  qed
  have tall: "0 \<le> new_height \<and> new_height \<le> current_height \<and>
              0 \<le> top' \<and> top' + new_height \<le> current_height"
    if "current_ratio < target_ratio"
  proof -
    have "0 \<le> new_height"
      unfolding assms(7,11) using assms(1,5,6) by (rule new_height_nonneg)
    moreover have "new_height \<le> current_height"
      unfolding assms(7,11) using assms(1-6) that [unfolded assms(7,8)] by (rule new_height_le)
    ultimately show ?thesis
      unfolding assms(12) by simp
  qed
  show ?thesis
    using wide tall cases by (simp add: assms(7-12))
qed

lemma feature_sizes:
  "fl (1024 / 500) < fl (1536 / 672)"
  "ensure_crop_box (1536, 672) 1024 500 = Inr (Some (80, 0, 1456, 672))"
  "fl (1408 / 768) < fl (1024 / 500)"
  "ensure_crop_box (1408, 768) 1024 500 = Inr (Some (0, 40, 1408, 727))"
  by code_simp+

theorem C9_aspect_crop_inside_witness:
  "fl (1024 / 500) < fl (1536 / 672) \<and>
   ensure_crop_box (1536, 672) 1024 500 = Inr (Some (80, 0, 1456, 672)) \<and>
   py_int (int_mul_float 672 (fl (1024 / 500))) \<le> 1536 \<and>
   fl (1408 / 768) < fl (1024 / 500) \<and>
   ensure_crop_box (1408, 768) 1024 500 = Inr (Some (0, 40, 1408, 727)) \<and>
   py_int (fl (float_of_int 1408 / fl (1024 / 500))) \<le> 768"
  using C9_aspect_crop_inside [of 1536 672 1024 500, OF _ _ _ _ _ _ refl refl refl refl refl refl]
    C9_aspect_crop_inside [of 1408 768 1024 500, OF _ _ _ _ _ _ refl refl refl refl refl refl]
    feature_sizes
  by simp

lemma crop_ok:
  assumes "l \<le> r" "u \<le> lo"
  shows "\<exists>out. crop img (l, u, r, lo) = Inr out \<and> width out = r - l \<and> height out = lo - u"
  using assms by simp

lemma resize_to_target:
  assumes "1 \<le> w" "1 \<le> h"
  shows "\<exists>out. resize filt img (w, h) = Inr out \<and> width out = w \<and> height out = h"
  using assms by auto

text \<open>
  Claim C5. For a source and a target with positive sides, \<^verbatim>\<open>ensure_exact_size\<close> returns
  an image of exactly the target size. When the source is relatively wider, the full
  height is kept and the width is cropped to \<open>int (current_height * target_ratio)\<close>,
  with margins that differ by at most one pixel; when it is relatively taller, the full
  width is kept and the height is cropped to \<open>int (current_width / target_ratio)\<close>
  in the same way; when the ratios are equal nothing is cropped and the source itself
  is resized.
\<close>

theorem C5_exact_size_one_axis:
  assumes "0 < width img" "0 < height img" "0 < target_width" "0 < target_height"
    and "target_ratio = fl (of_int target_width / of_int target_height)"
    and "current_ratio = fl (of_int (width img) / of_int (height img))"
    and "new_width = py_int (int_mul_float (height img) target_ratio)"
    and "left = (width img - new_width) div 2"
    and "new_height = py_int (fl (float_of_int (width img) / target_ratio))"
    and "top' = (height img - new_height) div 2"
  shows "(\<exists>out. ensure_exact_size filt img target_width target_height = Inr out \<and>
            width out = target_width \<and> height out = target_height) \<and>
         (target_ratio < current_ratio \<longrightarrow>
            (\<exists>cropped. crop img (left, 0, left + new_width, height img) = Inr cropped \<and>
               width cropped = new_width \<and> height cropped = height img \<and>
               ensure_exact_size filt img target_width target_height
                 = resize filt cropped (target_width, target_height)) \<and>
            width img - (left + new_width) - left \<in> {0, 1}) \<and>
         (current_ratio < target_ratio \<longrightarrow>
            (\<exists>cropped. crop img (0, top', width img, top' + new_height) = Inr cropped \<and>
               width cropped = width img \<and> height cropped = new_height \<and>
               ensure_exact_size filt img target_width target_height
                 = resize filt cropped (target_width, target_height)) \<and>
            height img - (top' + new_height) - top' \<in> {0, 1}) \<and>
         (current_ratio = target_ratio \<longrightarrow>
            ensure_crop_box (width img, height img) target_width target_height = Inr None \<and>
            ensure_exact_size filt img target_width target_height
              = resize filt img (target_width, target_height))"
proof -
  note cases = ensure_crop_box_cases [OF assms(1-4), folded assms(5,6), folded assms(7,9),
      folded assms(8,10)]
  have t: "1 \<le> target_width" "1 \<le> target_height"
    using assms(3,4) by simp_all
  have nw: "0 \<le> new_width"
    unfolding assms(5,7) using assms(2,3,4) by (rule new_width_nonneg)
  have nh: "0 \<le> new_height"
    unfolding assms(5,9) using assms(1,3,4) by (rule new_height_nonneg)
  have halves: "d - 2 * (d div 2) \<in> {0, 1}" for d :: int
    by (simp add: minus_mult_div_eq_mod) presburger
  have wide: "(\<exists>cropped. crop img (left, 0, left + new_width, height img) = Inr cropped \<and>
               width cropped = new_width \<and> height cropped = height img \<and>
               ensure_exact_size filt img target_width target_height
                 = resize filt cropped (target_width, target_height))"
    if "target_ratio < current_ratio"
  proof -
    obtain cropped where c: "crop img (left, 0, left + new_width, height img) = Inr cropped"
      and "width cropped = left + new_width - left" "height cropped = height img - 0"
      using crop_ok [of left "left + new_width" 0 "height img" img] nw assms(2) by auto
    moreover have "ensure_exact_size filt img target_width target_height
                 = resize filt cropped (target_width, target_height)"
      using that cases c
      by (simp add: ensure_exact_size_def del: ensure_crop_box.simps crop.simps resize.simps)
    ultimately show ?thesis
      by simp
  qed
  have tall: "(\<exists>cropped. crop img (0, top', width img, top' + new_height) = Inr cropped \<and>
               width cropped = width img \<and> height cropped = new_height \<and>
               ensure_exact_size filt img target_width target_height
                 = resize filt cropped (target_width, target_height))"
    if "current_ratio < target_ratio"
  proof -
    obtain cropped where c: "crop img (0, top', width img, top' + new_height) = Inr cropped"
      and "width cropped = width img - 0" "height cropped = top' + new_height - top'"
      using crop_ok [of 0 "width img" top' "top' + new_height" img] nh assms(1) by auto
    moreover have "ensure_exact_size filt img target_width target_height
                 = resize filt cropped (target_width, target_height)"
      using that cases c
      by (simp add: ensure_exact_size_def del: ensure_crop_box.simps crop.simps resize.simps)
    ultimately show ?thesis
      by simp
  qed
  have same: "ensure_crop_box (width img, height img) target_width target_height = Inr None \<and>
            ensure_exact_size filt img target_width target_height
              = resize filt img (target_width, target_height)"
    if "current_ratio = target_ratio"
    using that cases
    by (simp add: ensure_exact_size_def del: ensure_crop_box.simps crop.simps resize.simps)
  have ex: "\<exists>out. ensure_exact_size filt img target_width target_height = Inr out \<and>
            width out = target_width \<and> height out = target_height"
  proof -
    consider "target_ratio < current_ratio" | "current_ratio < target_ratio"
      | "current_ratio = target_ratio"
      by linarith
    then obtain src where "ensure_exact_size filt img target_width target_height
        = resize filt src (target_width, target_height)"
      using wide tall same by cases blast+
    then show ?thesis
      using resize_to_target [OF t, of filt src] by simp
  qed
  have m1: "width img - (left + new_width) - left \<in> {0, 1}"
    using halves [of "width img - new_width"] unfolding assms(8) by (simp add: algebra_simps)
  have m2: "height img - (top' + new_height) - top' \<in> {0, 1}"
    using halves [of "height img - new_height"] unfolding assms(10) by (simp add: algebra_simps)
  from ex wide tall same m1 m2 show ?thesis
    by blast
qed

lemma image_4x2_fitted:
  "ensure_exact_size flat_filter image_4x2 1 1 =
     Inr \<lparr>width = 1, height = 1, mode = ''RGB'', rows = [[0]]\<rparr>"
  "crop image_4x2 (1, 0, 3, 2) = Inr \<lparr>width = 2, height = 2, mode = ''RGB'', rows = [[2, 3], [6, 7]]\<rparr>"
  "ensure_exact_size flat_filter image_2x4 1 1 =
     Inr \<lparr>width = 1, height = 1, mode = ''RGB'', rows = [[0]]\<rparr>"
  "ensure_crop_box (width image_4x2, height image_4x2) 1 1 = Inr (Some (1, 0, 3, 2))"
  "ensure_crop_box (width image_2x4, height image_2x4) 1 1 = Inr (Some (0, 1, 2, 3))"
  by code_simp+

theorem C5_exact_size_one_axis_witness:
  "0 < width image_4x2 \<and> 0 < height image_4x2 \<and>
   ensure_crop_box (width image_4x2, height image_4x2) 1 1 = Inr (Some (1, 0, 3, 2)) \<and>
   ensure_exact_size flat_filter image_4x2 1 1 =
     Inr \<lparr>width = 1, height = 1, mode = ''RGB'', rows = [[0]]\<rparr> \<and>
   0 < width image_2x4 \<and> 0 < height image_2x4 \<and>
   ensure_crop_box (width image_2x4, height image_2x4) 1 1 = Inr (Some (0, 1, 2, 3)) \<and>
   ensure_exact_size flat_filter image_2x4 1 1 =
     Inr \<lparr>width = 1, height = 1, mode = ''RGB'', rows = [[0]]\<rparr>"
proof -
  have sz: "0 < width image_4x2" "0 < height image_4x2" "0 < width image_2x4" "0 < height image_2x4"
    by (simp_all add: image_4x2_def image_2x4_def)
  have "\<exists>out. ensure_exact_size flat_filter image_4x2 1 1 = Inr out \<and> width out = 1 \<and> height out = 1"
    using C5_exact_size_one_axis [OF sz(1,2) _ _ refl refl refl refl refl refl, of 1 1 flat_filter]
    by simp
  moreover
  have "\<exists>out. ensure_exact_size flat_filter image_2x4 1 1 = Inr out \<and> width out = 1 \<and> height out = 1"
    using C5_exact_size_one_axis [OF sz(3,4) _ _ refl refl refl refl refl refl, of 1 1 flat_filter]
    by simp
  ultimately show ?thesis
    using sz image_4x2_fitted by simp
qed

end
